theory Spec2Isabelle
  imports Main "HOL-Library.Multiset" "HOL-Library.Sublist"
begin

section \<open>Text\<close>

text \<open>
  A Python \<open>str\<close> is a sequence of Unicode code points. A code point is a natural
  number and a string is a list of them, so that a title such as \<open>U+7B2C 3 U+96C6\<close>
  is three, not seven, characters. ASCII literals are written through \<open>U\<close>.
\<close>

type_synonym uchar = nat
type_synonym ustr = "uchar list"

definition U :: "string \<Rightarrow> ustr" where
  "U s = map of_char s"

section \<open>The cache store (cache.py)\<close>

subsection \<open>CacheEntry and Cache\<close>

text \<open>
  The fields carry the types of the source's annotations: \<open>episode_number: int\<close>
  (unbounded), the four strings, and \<open>season: Optional[int]\<close>. A path is the list of
  its components; \<open>Path.parent\<close> drops the last one.
\<close>

type_synonym path = "ustr list"

record CacheEntry =
  episode_number :: int
  title :: ustr
  episode_url :: ustr
  m3u8_url :: ustr
  extracted_at :: ustr

record Cache =
  cache_file :: path
  season :: "int option"
  episodes :: "CacheEntry list"

text \<open>\<open>Cache.__init__\<close>: bound to a location, no season, no episodes.\<close>

definition Cache_init :: "path \<Rightarrow> Cache" where
  "Cache_init p = \<lparr>cache_file = p, season = None, episodes = []\<rparr>"

text \<open>
  \<open>CacheEntry.__init__\<close>: \<open>extracted_at or datetime.now().isoformat()\<close>. The clock's
  reading \<open>now\<close> is an argument; an absent or empty \<open>extracted_at\<close> is falsy.
\<close>

definition CacheEntry_init :: "ustr \<Rightarrow> int \<Rightarrow> ustr \<Rightarrow> ustr \<Rightarrow> ustr \<Rightarrow> ustr option \<Rightarrow> CacheEntry" where
  "CacheEntry_init now n t eu mu ea =
     \<lparr>episode_number = n, title = t, episode_url = eu, m3u8_url = mu,
      extracted_at = (case ea of None \<Rightarrow> now | Some s \<Rightarrow> if s = [] then now else s)\<rparr>"

subsection \<open>In-memory operations\<close>

text \<open>
  \<open>add_episode\<close>: drop the entries with the new entry's number, append the entry,
  sort by number. \<open>list.sort\<close> is stable, as \<open>sort_key\<close> is.
\<close>

definition add_episode :: "Cache \<Rightarrow> CacheEntry \<Rightarrow> Cache" where
  "add_episode c entry =
     c\<lparr>episodes :=
         sort_key episode_number
           (filter (\<lambda>ep. episode_number ep \<noteq> episode_number entry) (episodes c) @ [entry])\<rparr>"




text \<open>\<open>get_all_episodes\<close>: a copy of the list; a value in HOL.\<close>

definition get_all_episodes :: "Cache \<Rightarrow> CacheEntry list" where
  "get_all_episodes c = episodes c"

definition clear :: "Cache \<Rightarrow> Cache" where
  "clear c = c\<lparr>episodes := [], season := None\<rparr>"

subsection \<open>Files and JSON documents\<close>

text \<open>
  The standard library's \<open>json\<close> codec and the UTF-8 text layer are not code of this
  repository. A file's content is therefore the JSON document its text denotes, or text
  that \<open>json.load\<close> rejects, or something \<open>open\<close> or the decoder cannot read at all;
  writing a document and parsing it back is the identity on documents (strings are taken
  to be encodable). An object keeps its members as the text lists them; \<open>JFloat m e\<close>
  is the finite float \<open>m * 2^e\<close>.
\<close>

datatype json =
    JNull
  | JBool bool
  | JInt int
  | JFloat int int
  | JStr ustr
  | JList "json list"
  | JObj "(ustr \<times> json) list"

datatype content = Unreadable | NotJson ustr | Json json

datatype node = Dir | File content

type_synonym filesystem = "path \<Rightarrow> node option"

text \<open>
  \<open>json.load\<close> builds a \<open>dict\<close> from an object: of two members with one name the
  later wins. \<open>d.get(k)\<close> is \<open>None\<close> for a missing key, \<open>d[k]\<close> raises \<open>KeyError\<close>.
\<close>

definition dict_get :: "(ustr \<times> json) list \<Rightarrow> ustr \<Rightarrow> json option" where
  "dict_get kvs k = map_of (rev kvs) k"

definition dict_keys :: "(ustr \<times> json) list \<Rightarrow> ustr list" where
  "dict_keys kvs = rev (remdups (rev (map fst kvs)))"

text \<open>Python's truth value of a decoded JSON value, as \<open>x or y\<close> tests it.\<close>

fun truthy :: "json \<Rightarrow> bool" where
  "truthy JNull = False"
| "truthy (JBool b) = b"
| "truthy (JInt n) = (n \<noteq> 0)"
| "truthy (JFloat m e) = (m \<noteq> 0)"
| "truthy (JStr t) = (t \<noteq> [])"
| "truthy (JList xs) = (xs \<noteq> [])"
| "truthy (JObj kvs) = (kvs \<noteq> [])"

text \<open>
  The result of decoding: a value, or an exception that \<open>load\<close>'s \<open>except Exception\<close>
  catches, or \<open>Untyped\<close>: Python checks no annotation, so a document with, say, a
  string for \<open>episode_number\<close> loads into a store whose field is not an \<open>int\<close>. Such a
  store is outside the annotated types, which are this model's types; \<open>Untyped\<close> marks
  it, and nothing is claimed about it.
\<close>

datatype 'a decoded = Ok 'a | Raises | Untyped

subsection \<open>Serialisation\<close>

text \<open>\<open>CacheEntry.to_dict\<close> and the \<open>data\<close> dictionary of \<open>save\<close>.\<close>

definition to_dict :: "CacheEntry \<Rightarrow> json" where
  "to_dict ep = JObj
     [(U ''episode_number'', JInt (episode_number ep)),
      (U ''title'', JStr (title ep)),
      (U ''episode_url'', JStr (episode_url ep)),
      (U ''m3u8_url'', JStr (m3u8_url ep)),
      (U ''extracted_at'', JStr (extracted_at ep))]"

definition save_data :: "Cache \<Rightarrow> json" where
  "save_data c = JObj
     [(U ''season'', (case season c of None \<Rightarrow> JNull | Some n \<Rightarrow> JInt n)),
      (U ''episodes'', JList (map to_dict (episodes c)))]"

text \<open>
  \<open>CacheEntry.from_dict\<close>. Subscripting anything but a \<open>dict\<close> with a string raises
  \<open>TypeError\<close>; a missing key raises \<open>KeyError\<close>; the four subscripts are evaluated
  before the constructor runs. \<open>data.get('extracted_at')\<close> may be missing, and a falsy
  value is replaced by the clock's reading.
\<close>

definition from_dict :: "ustr \<Rightarrow> json \<Rightarrow> CacheEntry decoded" where
  "from_dict now data =
     (case data of
        JObj kvs \<Rightarrow>
          (case (dict_get kvs (U ''episode_number''), dict_get kvs (U ''title''),
                 dict_get kvs (U ''episode_url''), dict_get kvs (U ''m3u8_url'')) of
             (Some n, Some t, Some eu, Some mu) \<Rightarrow>
               (let ea = (case dict_get kvs (U ''extracted_at'') of None \<Rightarrow> JNull | Some v \<Rightarrow> v)
                in case (n, t, eu, mu) of
                     (JInt n', JStr t', JStr eu', JStr mu') \<Rightarrow>
                       (if \<not> truthy ea then Ok (CacheEntry_init now n' t' eu' mu' None)
                        else case ea of
                               JStr ea' \<Rightarrow> Ok (CacheEntry_init now n' t' eu' mu' (Some ea'))
                             | _ \<Rightarrow> Untyped)
                   | _ \<Rightarrow> Untyped)
           | _ \<Rightarrow> Raises)
      | _ \<Rightarrow> Raises)"

text \<open>
  \<open>for ep in data.get('episodes', [])\<close>: a list yields its elements, a \<open>dict\<close> its
  keys, a string its characters; iterating anything else raises \<open>TypeError\<close>.
\<close>

fun iter_items :: "json \<Rightarrow> json list option" where
  "iter_items (JList xs) = Some xs"
| "iter_items (JObj kvs) = Some (map JStr (dict_keys kvs))"
| "iter_items (JStr t) = Some (map (\<lambda>ch. JStr [ch]) t)"
| "iter_items _ = None"

text \<open>
  The list comprehension stops at the first element that raises; an element outside the
  types does not stop it, so \<open>Raises\<close> anywhere wins over \<open>Untyped\<close>.
\<close>

fun collect :: "'a decoded list \<Rightarrow> 'a list decoded" where
  "collect [] = Ok []"
| "collect (d # ds) =
     (case d of
        Raises \<Rightarrow> Raises
      | Untyped \<Rightarrow> (case collect ds of Raises \<Rightarrow> Raises | _ \<Rightarrow> Untyped)
      | Ok x \<Rightarrow> (case collect ds of Ok xs \<Rightarrow> Ok (x # xs) | Raises \<Rightarrow> Raises | Untyped \<Rightarrow> Untyped))"

definition decode_episodes :: "ustr \<Rightarrow> json \<Rightarrow> CacheEntry list decoded" where
  "decode_episodes now v =
     (case iter_items v of
        None \<Rightarrow> Raises
      | Some items \<Rightarrow> collect (map (from_dict now) items))"

definition decode_season :: "json option \<Rightarrow> int option decoded" where
  "decode_season v =
     (case v of
        None \<Rightarrow> Ok None
      | Some JNull \<Rightarrow> Ok None
      | Some (JInt n) \<Rightarrow> Ok (Some n)
      | Some _ \<Rightarrow> Untyped)"

subsection \<open>load\<close>

text \<open>
  \<open>Path.exists\<close> holds of files and directories. Opening a directory or an unreadable
  file raises, as does parsing text that is not JSON, and \<open>data.get\<close> on a document
  that is not an object (\<open>AttributeError\<close>). \<open>self.season\<close> is assigned before the
  episodes are decoded, so an exception there leaves the new season in place. The result
  is the returned flag and the store; \<open>None\<close> only for \<open>Untyped\<close> documents.
\<close>

definition load :: "filesystem \<Rightarrow> ustr \<Rightarrow> Cache \<Rightarrow> (bool \<times> Cache) option" where
  "load fs now c =
     (case fs (cache_file c) of
        None \<Rightarrow> Some (True, c\<lparr>season := None, episodes := []\<rparr>)
      | Some Dir \<Rightarrow> Some (False, c)
      | Some (File Unreadable) \<Rightarrow> Some (False, c)
      | Some (File (NotJson t)) \<Rightarrow> Some (False, c)
      | Some (File (Json data)) \<Rightarrow>
          (case data of
             JObj kvs \<Rightarrow>
               (case decode_season (dict_get kvs (U ''season'')) of
                  Ok s \<Rightarrow>
                    (case decode_episodes now
                            (case dict_get kvs (U ''episodes'') of None \<Rightarrow> JList [] | Some v \<Rightarrow> v) of
                       Ok es \<Rightarrow> Some (True, c\<lparr>season := s, episodes := es\<rparr>)
                     | Raises \<Rightarrow> Some (False, c\<lparr>season := s\<rparr>)
                     | Untyped \<Rightarrow> None)
                | _ \<Rightarrow> None)
           | _ \<Rightarrow> Some (False, c)))"

subsection \<open>save\<close>

text \<open>
  What the operating system does is not decided by the program: whether a call fails,
  and which names \<open>mkstemp\<close> draws. \<open>faults\<close> fixes these for one run of \<open>save\<close>.
  \<open>write_fails = Some t\<close>: the write raises after the text \<open>t\<close> reached the file.
\<close>

record faults =
  mkdir_fails :: bool
  tmp_names :: "ustr list"
  write_fails :: "ustr option"
  replace_fails :: bool
  unlink_fails :: bool

datatype oscall =
    Mkdir path
  | Mkstemp path
  | Write path content
  | Replace path path
  | Unlink path

text \<open>
  \<open>mkdir(parents=True, exist_ok=True)\<close>: every prefix of the path becomes a directory;
  a file in the way raises. A failing call is taken to create nothing.
\<close>

definition mkdir_parents :: "faults \<Rightarrow> filesystem \<Rightarrow> path \<Rightarrow> filesystem option" where
  "mkdir_parents env fs d =
     (if mkdir_fails env then None
      else if list_ex (\<lambda>p. case fs p of Some (File x) \<Rightarrow> True | _ \<Rightarrow> False) (prefixes d) then None
      else Some (\<lambda>p. if p \<in> set (prefixes d) then Some Dir else fs p))"

text \<open>
  \<open>tempfile.mkstemp(dir, prefix, suffix)\<close>: the first drawn name that is free in the
  directory; the file is created empty. No free name among those drawn raises.
\<close>

definition mkstemp :: "faults \<Rightarrow> filesystem \<Rightarrow> path \<Rightarrow> ustr \<Rightarrow> ustr \<Rightarrow> (path \<times> filesystem) option" where
  "mkstemp env fs d pre suf =
     (case find (\<lambda>p. fs p = None) (map (\<lambda>n. d @ [pre @ n @ suf]) (tmp_names env)) of
        None \<Rightarrow> None
      | Some p \<Rightarrow> Some (p, fs(p \<mapsto> File (NotJson []))))"

text \<open>\<open>os.fdopen\<close>, \<open>json.dump\<close> and the close of the \<open>with\<close> block.\<close>

definition write_json :: "faults \<Rightarrow> filesystem \<Rightarrow> path \<Rightarrow> json \<Rightarrow> bool \<times> filesystem" where
  "write_json env fs p data =
     (case write_fails env of
        Some t \<Rightarrow> (False, fs(p \<mapsto> File (NotJson t)))
      | None \<Rightarrow> (True, fs(p \<mapsto> File (Json data))))"

text \<open>
  \<open>os.replace(src, dst)\<close>: one atomic step; it raises on a directory as destination;
  renaming a file onto itself changes nothing.
\<close>

definition os_replace :: "faults \<Rightarrow> filesystem \<Rightarrow> path \<Rightarrow> path \<Rightarrow> filesystem option" where
  "os_replace env fs src dst =
     (if replace_fails env then None
      else if fs dst = Some Dir then None
      else if src = dst then Some fs
      else Some (fs(dst := fs src, src := None)))"

definition os_unlink :: "faults \<Rightarrow> filesystem \<Rightarrow> path \<Rightarrow> filesystem option" where
  "os_unlink env fs p = (if unlink_fails env then None else Some (fs(p := None)))"

text \<open>
  \<open>Cache.save\<close>: the flag returned, the file system afterwards, and the calls made in
  order (as called, whatever their outcome; an \<open>mkstemp\<close> that fails yields no
  path and is not listed). The inner handler unlinks the temporary file, ignoring an
  \<open>OSError\<close> of the unlink itself, and re-raises; the outer handler returns \<open>False\<close>.
\<close>

definition save :: "faults \<Rightarrow> filesystem \<Rightarrow> Cache \<Rightarrow> bool \<times> filesystem \<times> oscall list" where
  "save env fs c =
     (let parent = butlast (cache_file c) in
      case mkdir_parents env fs parent of
        None \<Rightarrow> (False, fs, [Mkdir parent])
      | Some fs1 \<Rightarrow>
          (let data = save_data c in
           case mkstemp env fs1 parent (U ''.tmp_'') (U ''.json'') of
             None \<Rightarrow> (False, fs1, [Mkdir parent])
           | Some (temp_path, fs2) \<Rightarrow>
               (case write_json env fs2 temp_path data of
                  (False, fs3) \<Rightarrow>
                    (False,
                     (case os_unlink env fs3 temp_path of None \<Rightarrow> fs3 | Some fs5 \<Rightarrow> fs5),
                     [Mkdir parent, Mkstemp temp_path, Write temp_path (Json data),
                      Unlink temp_path])
                | (True, fs3) \<Rightarrow>
                    (case os_replace env fs3 temp_path (cache_file c) of
                       Some fs4 \<Rightarrow>
                         (True, fs4,
                          [Mkdir parent, Mkstemp temp_path, Write temp_path (Json data),
                           Replace temp_path (cache_file c)])
                     | None \<Rightarrow>
                         (False,
                          (case os_unlink env fs3 temp_path of None \<Rightarrow> fs3 | Some fs5 \<Rightarrow> fs5),
                          [Mkdir parent, Mkstemp temp_path, Write temp_path (Json data),
                           Replace temp_path (cache_file c), Unlink temp_path])))))"

section \<open>Strings and regular expressions of the standard library\<close>

text \<open>
  \<open>str.isspace\<close>, \<open>str.strip\<close> and the class \<open>\s\<close> of \<open>re\<close> on \<open>str\<close> patterns share
  one table of white space.
\<close>

definition is_space :: "uchar \<Rightarrow> bool" where
  "is_space ch =
     ((9 \<le> ch \<and> ch \<le> 13) \<or> (28 \<le> ch \<and> ch \<le> 32) \<or> ch = 133 \<or> ch = 160 \<or> ch = 5760 \<or>
      (8192 \<le> ch \<and> ch \<le> 8202) \<or> ch = 8232 \<or> ch = 8233 \<or> ch = 8239 \<or> ch = 8287 \<or>
      ch = 12288)"

text \<open>
  \<open>\d\<close> and \<open>int()\<close> accept every Unicode decimal digit. The ASCII digits are fixed;
  the digits beyond ASCII come from the Unicode database of the interpreter, which is
  the parameter \<open>nd\<close> (the digit's value, if the code point is one).
\<close>

definition decimal_value :: "(uchar \<Rightarrow> nat option) \<Rightarrow> uchar \<Rightarrow> nat option" where
  "decimal_value nd ch =
     (if ch < 128 then (if 48 \<le> ch \<and> ch \<le> 57 then Some (ch - 48) else None) else nd ch)"

definition is_digit :: "(uchar \<Rightarrow> nat option) \<Rightarrow> uchar \<Rightarrow> bool" where
  "is_digit nd ch = (decimal_value nd ch \<noteq> None)"

definition ascii_digits_only :: "uchar \<Rightarrow> nat option" where
  "ascii_digits_only ch = None"

text \<open>
  A literal letter under \<open>re.IGNORECASE\<close> matches its lower and upper case and, as
  the \<open>re\<close> documentation lists, four more letters: U+0130 and U+0131 match \<open>i\<close>,
  U+017F matches \<open>s\<close>, U+212A matches \<open>k\<close>.
\<close>

definition ci :: "char \<Rightarrow> uchar \<Rightarrow> bool" where
  "ci c x =
     (let n = (of_char c :: nat);
          lo = (if 65 \<le> n \<and> n \<le> 90 then n + 32 else n);
          up = (if 97 \<le> n \<and> n \<le> 122 then n - 32 else n)
      in x = lo \<or> x = up \<or> (lo = 105 \<and> (x = 304 \<or> x = 305)) \<or> (lo = 115 \<and> x = 383) \<or>
         (lo = 107 \<and> x = 8490))"

text \<open>
  Every pattern of the repository is a sequence of character classes, each taken once,
  \<open>*\<close> or \<open>+\<close>, with at most one group around one of them. \<open>rx_match\<close> matches such
  a sequence at the start of a string as \<open>re\<close> does: a repetition takes as many
  characters as it can and gives them back one by one while the rest fails. The result
  is the number of characters each class took.
\<close>

datatype quant = One | Star | Plus

type_synonym rx = "((uchar \<Rightarrow> bool) \<times> quant) list"

fun rx_star :: "(uchar \<Rightarrow> bool) \<Rightarrow> (ustr \<Rightarrow> nat list option) \<Rightarrow> ustr \<Rightarrow> (nat \<times> nat list) option" where
  "rx_star p cont [] = map_option (Pair 0) (cont [])"
| "rx_star p cont (ch # t) =
     (if p ch then
        (case rx_star p cont t of
           Some (k, ls) \<Rightarrow> Some (Suc k, ls)
         | None \<Rightarrow> map_option (Pair 0) (cont (ch # t)))
      else map_option (Pair 0) (cont (ch # t)))"

fun rx_match :: "rx \<Rightarrow> ustr \<Rightarrow> nat list option" where
  "rx_match [] s = Some []"
| "rx_match ((p, One) # r) s =
     (case s of
        [] \<Rightarrow> None
      | ch # t \<Rightarrow> if p ch then map_option (Cons 1) (rx_match r t) else None)"
| "rx_match ((p, Star) # r) s =
     map_option (\<lambda>(k, ls). k # ls) (rx_star p (\<lambda>u. rx_match r u) s)"
| "rx_match ((p, Plus) # r) s =
     (case s of
        [] \<Rightarrow> None
      | ch # t \<Rightarrow>
          if p ch then map_option (\<lambda>(k, ls). Suc k # ls) (rx_star p (\<lambda>u. rx_match r u) t)
          else None)"

text \<open>\<open>re.search\<close>: the match at the leftmost position that has one, with its offset.\<close>

fun rx_search :: "rx \<Rightarrow> ustr \<Rightarrow> (nat \<times> nat list) option" where
  "rx_search r [] = map_option (Pair 0) (rx_match r [])"
| "rx_search r (ch # t) =
     (case rx_match r (ch # t) of
        Some ls \<Rightarrow> Some (0, ls)
      | None \<Rightarrow> map_option (\<lambda>(i, ls). (Suc i, ls)) (rx_search r t))"

text \<open>The text of a match, and of the group around class number \<open>g\<close>.\<close>

definition rx_text :: "ustr \<Rightarrow> nat \<times> nat list \<Rightarrow> ustr" where
  "rx_text s m = take (sum_list (snd m)) (drop (fst m) s)"

definition rx_group :: "nat \<Rightarrow> ustr \<Rightarrow> nat \<times> nat list \<Rightarrow> ustr" where
  "rx_group g s m =
     (case drop g (snd m) of
        [] \<Rightarrow> []
      | n # rest \<Rightarrow> take n (drop (fst m + sum_list (take g (snd m))) s))"

text \<open>
  \<open>re.findall\<close> for a pattern without group: the texts of the matches from left to
  right, each search starting where the match before ended. The test on the lengths
  only stops the scan after an empty match at the start, which no pattern with a
  literal character has.
\<close>

fun rx_findall :: "rx \<Rightarrow> ustr \<Rightarrow> ustr list" where
  "rx_findall r s =
     (case rx_search r s of
        None \<Rightarrow> []
      | Some (i, ls) \<Rightarrow>
          take (sum_list ls) (drop i s) #
          (if length (drop (i + sum_list ls) s) < length s
           then rx_findall r (drop (i + sum_list ls) s) else []))"

declare rx_findall.simps [simp del]

definition lits :: "ustr \<Rightarrow> rx" where
  "lits t = map (\<lambda>ch. ((=) ch, One)) t"

definition lits_ci :: "string \<Rightarrow> rx" where
  "lits_ci t = map (\<lambda>c. (ci c, One)) t"

text \<open>\<open>x in s\<close> on strings: \<open>x\<close> occurs in \<open>s\<close> as a contiguous piece.\<close>

fun py_in :: "ustr \<Rightarrow> ustr \<Rightarrow> bool" where
  "py_in x [] = (x = [])"
| "py_in x (ch # t) = (prefix x (ch # t) \<or> py_in x t)"

text \<open>\<open>s.split(sep)\<close> with a one-character separator, and \<open>s.strip()\<close>.\<close>

fun split_on :: "uchar \<Rightarrow> ustr \<Rightarrow> ustr list" where
  "split_on sep [] = [[]]"
| "split_on sep (ch # t) =
     (if ch = sep then [] # split_on sep t
      else (case split_on sep t of
              [] \<Rightarrow> [[ch]]
            | w # ws \<Rightarrow> (ch # w) # ws))"

definition strip :: "ustr \<Rightarrow> ustr" where
  "strip s = rev (dropWhile is_space (rev (dropWhile is_space s)))"

text \<open>
  \<open>int(s)\<close> on a string, base ten: white space around is dropped, a sign may lead,
  then decimal digits, single underscores allowed between digits. \<open>None\<close> is
  \<open>ValueError\<close>. (The interpreter's optional cap on the number of digits is not
  modelled.)
\<close>

fun digits_value :: "(uchar \<Rightarrow> nat option) \<Rightarrow> nat \<Rightarrow> bool \<Rightarrow> ustr \<Rightarrow> nat option" where
  "digits_value nd acc after_digit [] = (if after_digit then Some acc else None)"
| "digits_value nd acc after_digit (ch # t) =
     (case decimal_value nd ch of
        Some d \<Rightarrow> digits_value nd (10 * acc + d) True t
      | None \<Rightarrow> if ch = 95 \<and> after_digit then digits_value nd acc False t else None)"

definition py_int :: "(uchar \<Rightarrow> nat option) \<Rightarrow> ustr \<Rightarrow> int option" where
  "py_int nd s =
     (case strip s of
        [] \<Rightarrow> None
      | ch # t \<Rightarrow>
          if ch = 45 then map_option (\<lambda>n. - int n) (digits_value nd 0 False t)
          else if ch = 43 then map_option int (digits_value nd 0 False t)
          else map_option int (digits_value nd 0 False (ch # t)))"

section \<open>The URL extractor (extractor.py)\<close>

text \<open>
  The HTML parser is a collaborator. What the extractor asks of a parsed document is
  the tags in document order, each with its name, its attributes and its \<open>.string\<close>
  (the single text child, if there is exactly one).
\<close>

record tag =
  tag_name :: ustr
  attrs :: "ustr \<Rightarrow> ustr option"
  tag_string :: "ustr option"

type_synonym soup = "tag list"

text \<open>\<open>soup.find(name, property=v)\<close>: the first such tag; \<open>soup.find_all(name)\<close>.\<close>

definition soup_find :: "soup \<Rightarrow> ustr \<Rightarrow> ustr \<Rightarrow> tag option" where
  "soup_find sp name v =
     find (\<lambda>t. tag_name t = name \<and> attrs t (U ''property'') = Some v) sp"

definition soup_find_all :: "soup \<Rightarrow> ustr \<Rightarrow> tag list" where
  "soup_find_all sp name = filter (\<lambda>t. tag_name t = name) sp"

text \<open>The pattern \<^verbatim>\<open>https://[^"\s]+/hls\.m3u8\?viewerToken=[^"\s]+\<close>.\<close>

definition m3u8_pattern :: rx where
  "m3u8_pattern =
     lits (U ''https://'') @ [(\<lambda>ch. ch \<noteq> 34 \<and> \<not> is_space ch, Plus)] @
     lits (U ''/hls.m3u8?viewerToken='') @ [(\<lambda>ch. ch \<noteq> 34 \<and> \<not> is_space ch, Plus)]"

text \<open>Strategy 3, the loop over the script tags.\<close>

fun scan_scripts :: "tag list \<Rightarrow> ustr option" where
  "scan_scripts [] = None"
| "scan_scripts (script # rest) =
     (case tag_string script of
        None \<Rightarrow> scan_scripts rest
      | Some text \<Rightarrow>
          if text = [] then scan_scripts rest
          else (case rx_findall m3u8_pattern text of
                  [] \<Rightarrow> scan_scripts rest
                | m # ms \<Rightarrow> Some m))"

text \<open>\<open>URLExtractor._extract_m3u8_url\<close>.\<close>

definition extract_m3u8_url :: "soup \<Rightarrow> ustr \<Rightarrow> ustr option" where
  "extract_m3u8_url sp html_content =
     (let strategy2 =
        (case rx_findall m3u8_pattern html_content of
           m # ms \<Rightarrow> Some m
         | [] \<Rightarrow> scan_scripts (soup_find_all sp (U ''script'')))
      in case soup_find sp (U ''meta'') (U ''og:url'') of
           None \<Rightarrow> strategy2
         | Some og_url \<Rightarrow>
             (case attrs og_url (U ''content'') of
                None \<Rightarrow> strategy2
              | Some url \<Rightarrow>
                  if url \<noteq> [] \<and> py_in (U ''hls.m3u8'') url \<and> py_in (U ''viewerToken='') url
                  then Some url else strategy2))"

text \<open>
  The three strategies in the specification's words: the \<open>og:url\<close> metadata URL if it
  carries both markers; the first match of the pattern in a text; that scan on a script
  block's text.
\<close>

definition strategy1 :: "soup \<Rightarrow> ustr option" where
  "strategy1 sp =
     (case soup_find sp (U ''meta'') (U ''og:url'') of
        None \<Rightarrow> None
      | Some t \<Rightarrow>
          (case attrs t (U ''content'') of
             None \<Rightarrow> None
           | Some u \<Rightarrow>
               if py_in (U ''hls.m3u8'') u \<and> py_in (U ''viewerToken='') u then Some u else None))"

definition first_scan :: "ustr \<Rightarrow> ustr option" where
  "first_scan text = map_option (rx_text text) (rx_search m3u8_pattern text)"

definition script_scan :: "tag \<Rightarrow> ustr option" where
  "script_scan script = (case tag_string script of None \<Rightarrow> None | Some text \<Rightarrow> first_scan text)"

text \<open>
  \<open>URLExtractor.extract_episode_number\<close>: the four patterns with the class their group
  is around, tried in order with \<open>re.search\<close> under \<open>re.IGNORECASE\<close>; \<open>int\<close> of the
  group of the first that matches.
\<close>

definition episode_patterns :: "(uchar \<Rightarrow> nat option) \<Rightarrow> (rx \<times> nat) list" where
  "episode_patterns nd =
     [(lits_ci ''Episode'' @ [(is_space, Plus), (is_digit nd, Plus)], 8),
      (lits_ci ''Ep'' @ [(is_space, Plus), (is_digit nd, Plus)], 3),
      (lits_ci ''E'' @ [(is_digit nd, Plus)], 1),
      ([((=) 31532, One), (is_space, Star), (is_digit nd, Plus), (is_space, Star),
        ((=) 38598, One)], 2)]"

definition int_of_digits :: "(uchar \<Rightarrow> nat option) \<Rightarrow> ustr \<Rightarrow> int" where
  "int_of_digits nd ds =
     int (foldl (\<lambda>acc ch. 10 * acc + (case decimal_value nd ch of Some d \<Rightarrow> d | None \<Rightarrow> 0)) 0 ds)"

fun first_match :: "(uchar \<Rightarrow> nat option) \<Rightarrow> (rx \<times> nat) list \<Rightarrow> ustr \<Rightarrow> int option" where
  "first_match nd [] ttl = None"
| "first_match nd ((pattern, g) # rest) ttl =
     (case rx_search pattern ttl of
        Some m \<Rightarrow> Some (int_of_digits nd (rx_group g ttl m))
      | None \<Rightarrow> first_match nd rest ttl)"

definition extract_episode_number :: "(uchar \<Rightarrow> nat option) \<Rightarrow> ustr \<Rightarrow> int option" where
  "extract_episode_number nd ttl = first_match nd (episode_patterns nd) ttl"

section \<open>The episode selector (cli.py)\<close>




text \<open>
  The selector's contract in the specification's words, for one term: a range
  \<open>A-B\<close> of two integers, a bare integer, or malformed.
\<close>

definition spec_range :: "(uchar \<Rightarrow> nat option) \<Rightarrow> ustr \<Rightarrow> (int \<times> int) option" where
  "spec_range nd t =
     (case split_on 45 t of
        [a, b] \<Rightarrow> (case (py_int nd a, py_int nd b) of
                     (Some A, Some B) \<Rightarrow> Some (A, B)
                   | _ \<Rightarrow> None)
      | _ \<Rightarrow> None)"


section \<open>The batch preprocessor (preprocessor.py)\<close>

datatype pyexc = ValueError | NameError

datatype event = NoUrls | FailedExtract ustr | Sleep | Saved nat | SaveFailed | Error pyexc

text \<open>
  What the preprocessor asks of the world: whether a path exists, and the extractor's
  answers. \<open>extract_from_file\<close> and \<open>extract_from_url\<close> return, on every path through
  them, a tuple of three: the manifest URL, the title, the error message.
\<close>

record world =
  path_exists :: "ustr \<Rightarrow> bool"
  extract_from_file :: "ustr \<Rightarrow> ustr option \<times> ustr option \<times> ustr option"
  extract_from_url :: "ustr \<Rightarrow> ustr option \<times> ustr option \<times> ustr option"

definition tuple_items :: "'a \<times> 'a \<times> 'a \<Rightarrow> 'a list" where
  "tuple_items t = (case t of (a, b, c) \<Rightarrow> [a, b, c])"

text \<open>\<open>x, y = t\<close>: \<open>ValueError\<close> unless \<open>t\<close> has exactly two items.\<close>

definition unpack2 :: "'a list \<Rightarrow> pyexc + 'a \<times> 'a" where
  "unpack2 xs = (case xs of [a, b] \<Rightarrow> Inr (a, b) | _ \<Rightarrow> Inl ValueError)"

text \<open>\<open>not x\<close> for an optional string: \<open>None\<close> and the empty string are false.\<close>

definition falsy :: "ustr option \<Rightarrow> bool" where
  "falsy x = (case x of None \<Rightarrow> True | Some t \<Rightarrow> t = [])"

text \<open>
  \<open>episode_url=url\<close>: no \<open>url\<close> is bound in \<open>process_url_list\<close> or in the module (the
  loop variable is \<open>item\<close>), so evaluating the name raises \<open>NameError\<close>.
\<close>

definition name_url :: "pyexc + ustr" where
  "name_url = Inl NameError"

text \<open>\<open>str(n)\<close> of an integer, for \<open>f"Episode {episode_number}"\<close>.\<close>

function str_nat :: "nat \<Rightarrow> ustr" where
  "str_nat n = (if n < 10 then [48 + n] else str_nat (n div 10) @ [48 + n mod 10])"
  by pat_completeness auto
termination
  by (relation "measure (\<lambda>n. n)") auto

declare str_nat.simps [simp del]

definition str_int :: "int \<Rightarrow> ustr" where
  "str_int n = (if n < 0 then 45 # str_nat (nat (- n)) else str_nat (nat n))"

text \<open>
  The loop of \<open>process_url_list\<close> over \<open>enumerate(urls, 1)\<close>: the events printed so far
  and either the exception that left the loop or the cache after it.
\<close>

fun process_items ::
  "world \<Rightarrow> (uchar \<Rightarrow> nat option) \<Rightarrow> ustr \<Rightarrow> nat \<Rightarrow> nat \<Rightarrow> ustr list \<Rightarrow> Cache \<Rightarrow> event list
     \<Rightarrow> event list \<times> (pyexc + Cache)" where
  "process_items w nd now len i [] cache log = (log, Inr cache)"
| "process_items w nd now len i (item # rest) cache log =
     (case unpack2 (tuple_items (if path_exists w item then extract_from_file w item
                                 else extract_from_url w item)) of
        Inl exc \<Rightarrow> (log, Inl exc)
      | Inr (m3u8, ttl) \<Rightarrow>
          if falsy m3u8 then
            process_items w nd now len (i + 1) rest cache (log @ [FailedExtract item])
          else
            (let number =
               (case ttl of
                  None \<Rightarrow> int i
                | Some t \<Rightarrow>
                    if t = [] then int i
                    else (case extract_episode_number nd t of
                            None \<Rightarrow> int i
                          | Some n \<Rightarrow> if n \<noteq> 0 then n else int i))
             in case name_url of
                  Inl exc \<Rightarrow> (log, Inl exc)
                | Inr url \<Rightarrow>
                    (let entry = CacheEntry_init now number
                           (if falsy ttl then U ''Episode '' @ str_int number
                            else (case ttl of Some t \<Rightarrow> t | None \<Rightarrow> []))
                           url (case m3u8 of Some m \<Rightarrow> m | None \<Rightarrow> []) None
                     in process_items w nd now len (i + 1) rest (add_episode cache entry)
                          (log @ (if i < len then [Sleep] else [])))))"

text \<open>
  \<open>Preprocessor.process_url_list\<close>, from the list that \<open>_read_url_list\<close> returned:
  the flag, the file system afterwards and the events printed. Any exception of the
  body is caught by the outer handler, which prints it and returns \<open>False\<close>.
\<close>

definition process_url_list ::
  "world \<Rightarrow> faults \<Rightarrow> (uchar \<Rightarrow> nat option) \<Rightarrow> ustr \<Rightarrow> filesystem \<Rightarrow> ustr list \<Rightarrow> path \<Rightarrow> int
     \<Rightarrow> bool \<times> filesystem \<times> event list" where
  "process_url_list w env nd now fs urls cache_path season_no =
     (if urls = [] then (False, fs, [NoUrls])
      else
        (case process_items w nd now (length urls) 1 urls
                ((Cache_init cache_path)\<lparr>season := Some season_no\<rparr>) [] of
           (log, Inl exc) \<Rightarrow> (False, fs, log @ [Error exc])
         | (log, Inr cache) \<Rightarrow>
             (case save env fs cache of
                (True, fs', calls) \<Rightarrow> (True, fs', log @ [Saved (length (episodes cache))])
              | (False, fs', calls) \<Rightarrow> (False, fs', log @ [SaveFailed]))))"

text \<open>
  Two sources for an example: the first resolves to nothing, the second to a manifest
  URL and a title.
\<close>

definition two_sources :: world where
  "two_sources =
     \<lparr>path_exists = (\<lambda>p. True),
      extract_from_file =
        (\<lambda>p. if p = U ''one.html'' then (None, None, Some (U ''m3u8 URL not found in HTML''))
             else (Some (U ''https://h.example/v/hls.m3u8?viewerToken=t''),
                   Some (U ''Episode 2''), None)),
      extract_from_url = (\<lambda>p. (None, None, Some (U ''unused'')))\<rparr>"


text \<open>A file system with nothing in it, to build examples from.\<close>

definition no_files :: filesystem where
  "no_files = (\<lambda>p. None)"

definition no_faults :: "ustr list \<Rightarrow> faults" where
  "no_faults names =
     \<lparr>mkdir_fails = False, tmp_names = names, write_fails = None,
      replace_fails = False, unlink_fails = False\<rparr>"

text \<open>The stores that \<open>add_episode\<close> calls build from the empty store.\<close>

inductive reachable :: "Cache \<Rightarrow> bool" where
  reachable_init: "reachable (Cache_init p)"
| reachable_add: "reachable c \<Longrightarrow> reachable (add_episode c e)"

definition strictly_ascending :: "CacheEntry list \<Rightarrow> bool" where
  "strictly_ascending es = sorted_wrt (<) (map episode_number es)"

section \<open>Properties of the in-memory store\<close>

lemma episodes_add_episode:
  "episodes (add_episode c e) =
     sort_key episode_number
       (filter (\<lambda>ep. episode_number ep \<noteq> episode_number e) (episodes c) @ [e])"
  by (simp add: add_episode_def)

lemma distinct_keys_filter:
  "distinct (map episode_number es) \<Longrightarrow> distinct (map episode_number (filter P es))"
  by (induction es) auto

lemma add_episode_ascending:
  assumes "strictly_ascending (episodes c)"
  shows "strictly_ascending (episodes (add_episode c e))"
proof -
  let ?rest = "filter (\<lambda>ep. episode_number ep \<noteq> episode_number e) (episodes c)"
  from assms have "distinct (map episode_number (episodes c))"
    by (simp add: strictly_ascending_def strict_sorted_iff)
  then have "distinct (map episode_number ?rest)"
    by (rule distinct_keys_filter)
  then have d: "distinct (map episode_number (?rest @ [e]))"
    by auto
  have "mset (map episode_number (sort_key episode_number (?rest @ [e])))
          = mset (map episode_number (?rest @ [e]))"
    by simp
  from mset_eq_imp_distinct_iff [OF this] d
  have "distinct (map episode_number (sort_key episode_number (?rest @ [e])))"
    by simp
  moreover have "sorted (map episode_number (sort_key episode_number (?rest @ [e])))"
    by (rule sorted_sort_key)
  ultimately show ?thesis
    by (simp add: strictly_ascending_def strict_sorted_iff episodes_add_episode)
qed

lemma reachable_ascending: "reachable c \<Longrightarrow> strictly_ascending (episodes c)"
proof (induction rule: reachable.induct)
  case (reachable_init p)
  show ?case by (simp add: Cache_init_def strictly_ascending_def)
next
  case (reachable_add c e)
  then show ?case by (simp add: add_episode_ascending)
qed

lemma foldl_add_episode_ascending:
  "strictly_ascending (episodes c) \<Longrightarrow> strictly_ascending (episodes (foldl add_episode c es))"
  by (induction es arbitrary: c) (simp_all add: add_episode_ascending)

text \<open>
  C4. From any store that \<open>add_episode\<close> calls built from the empty store, after any
  finite sequence of further \<open>add_episode\<close> calls, \<open>get_all_episodes\<close> is strictly
  ascending by \<open>episode_number\<close>: sorted, and no two entries share a number.
\<close>

theorem C4_sort_invariant:
  "reachable c \<Longrightarrow>
     strictly_ascending (get_all_episodes (foldl add_episode c es)) \<and>
     sorted (map episode_number (get_all_episodes (foldl add_episode c es))) \<and>
     distinct (map episode_number (get_all_episodes (foldl add_episode c es)))"
proof -
  assume "reachable c"
  then have "strictly_ascending (episodes (foldl add_episode c es))"
    by (intro foldl_add_episode_ascending reachable_ascending)
  then show ?thesis
    by (simp add: get_all_episodes_def strictly_ascending_def strict_sorted_iff)
qed

theorem C4_sort_invariant_witness:
  "reachable (add_episode (Cache_init [U ''c.json''])
       (CacheEntry_init (U ''t0'') 3 (U ''c'') (U ''u3'') (U ''m3'') None)) \<and>
   strictly_ascending (get_all_episodes
      (foldl add_episode
         (add_episode (Cache_init [U ''c.json''])
            (CacheEntry_init (U ''t0'') 3 (U ''c'') (U ''u3'') (U ''m3'') None))
         [CacheEntry_init (U ''t1'') 1 (U ''a'') (U ''u1'') (U ''m1'') None,
          CacheEntry_init (U ''t2'') 3 (U ''d'') (U ''u3'') (U ''m4'') None,
          CacheEntry_init (U ''t3'') 2 (U ''b'') (U ''u2'') (U ''m2'') None])) \<and>
   map episode_number (get_all_episodes
      (foldl add_episode
         (add_episode (Cache_init [U ''c.json''])
            (CacheEntry_init (U ''t0'') 3 (U ''c'') (U ''u3'') (U ''m3'') None))
         [CacheEntry_init (U ''t1'') 1 (U ''a'') (U ''u1'') (U ''m1'') None,
          CacheEntry_init (U ''t2'') 3 (U ''d'') (U ''u3'') (U ''m4'') None,
          CacheEntry_init (U ''t3'') 2 (U ''b'') (U ''u2'') (U ''m2'') None])) = [1, 2, 3]"
proof -
  let ?c = "add_episode (Cache_init [U ''c.json''])
       (CacheEntry_init (U ''t0'') 3 (U ''c'') (U ''u3'') (U ''m3'') None)"
  let ?es = "[CacheEntry_init (U ''t1'') 1 (U ''a'') (U ''u1'') (U ''m1'') None,
          CacheEntry_init (U ''t2'') 3 (U ''d'') (U ''u3'') (U ''m4'') None,
          CacheEntry_init (U ''t3'') 2 (U ''b'') (U ''u2'') (U ''m2'') None]"
  have r: "reachable ?c"
    by (rule reachable_add [OF reachable_init])
  have "map episode_number (get_all_episodes (foldl add_episode ?c ?es)) = [1, 2, 3]"
    by (simp add: add_episode_def get_all_episodes_def Cache_init_def CacheEntry_init_def)
  with r C4_sort_invariant [OF r, of ?es]
  show ?thesis by simp
qed

lemma sort_key_twice: "sort_key f (sort_key f xs) = sort_key f xs"
  by (rule sort_key_id_if_sorted) (rule sorted_sort_key)

lemma sort_key_stable_eq:
  "filter (\<lambda>x. k = f x) (sort_key f xs) = filter (\<lambda>x. k = f x) xs"
  using sort_key_stable [of f k xs] by (simp add: eq_commute)

lemma sort_key_append_sorted:
  "sort_key f (sort_key f xs @ ys) = sort_key f (xs @ ys)"
proof (rule sym, rule properties_for_sort_key)
  show "mset (sort_key f (sort_key f xs @ ys)) = mset (xs @ ys)" by simp
  show "sorted (map f (sort_key f (sort_key f xs @ ys)))" by (rule sorted_sort_key)
  fix k
  show "filter (\<lambda>x. f k = f x) (sort_key f (sort_key f xs @ ys))
          = filter (\<lambda>x. f k = f x) (xs @ ys)"
    by (simp add: sort_key_stable_eq)
qed

text \<open>
  C5. In any store, \<open>add_episode e1\<close> then \<open>add_episode e2\<close> with the same number
  leaves exactly one entry with that number, and it is \<open>e2\<close> (all its fields); the
  entries with other numbers are the store's own, in sorted order (unchanged where the
  store was sorted); the first call leaves no trace.
\<close>

theorem C5_idempotent_upsert:
  "episode_number e1 = episode_number e2 \<Longrightarrow>
     filter (\<lambda>ep. episode_number ep = episode_number e2)
        (episodes (add_episode (add_episode c e1) e2)) = [e2] \<and>
     filter (\<lambda>ep. episode_number ep \<noteq> episode_number e2)
        (episodes (add_episode (add_episode c e1) e2))
       = sort_key episode_number
           (filter (\<lambda>ep. episode_number ep \<noteq> episode_number e2) (episodes c)) \<and>
     (sorted (map episode_number (episodes c)) \<longrightarrow>
        filter (\<lambda>ep. episode_number ep \<noteq> episode_number e2)
          (episodes (add_episode (add_episode c e1) e2))
         = filter (\<lambda>ep. episode_number ep \<noteq> episode_number e2) (episodes c)) \<and>
     add_episode (add_episode c e1) e2 = add_episode c e2"
proof -
  assume same: "episode_number e1 = episode_number e2"
  let ?n = "episode_number e2"
  let ?P = "\<lambda>ep. episode_number ep \<noteq> ?n"
  let ?c' = "add_episode (add_episode c e1) e2"
  have eq: "filter (\<lambda>ep. episode_number ep = ?n) (episodes ?c') = [e2]"
    using same by (simp add: episodes_add_episode sort_key_stable)
  have ne: "filter ?P (episodes ?c') = sort_key episode_number (filter ?P (episodes c))"
    using same by (simp add: episodes_add_episode filter_sort sort_key_twice)
  have keep: "filter ?P (episodes ?c') = filter ?P (episodes c)"
    if "sorted (map episode_number (episodes c))"
  proof -
    from that have "sorted (map episode_number (filter ?P (episodes c)))"
      by (simp add: sorted_filter)
    then show ?thesis by (simp add: ne sort_key_id_if_sorted)
  qed
  have once: "?c' = add_episode c e2"
    using same by (simp add: add_episode_def filter_sort sort_key_append_sorted)
  from eq ne keep once show ?thesis by blast
qed

theorem C5_idempotent_upsert_witness:
  "episode_number (CacheEntry_init (U ''t4'') 2 (U ''x'') (U ''u4'') (U ''m4'') None)
     = episode_number (CacheEntry_init (U ''t5'') 2 (U ''y'') (U ''u5'') (U ''m5'') None) \<and>
   episodes (add_episode (add_episode
      \<lparr>cache_file = [U ''c.json''], season = Some 1,
       episodes = [CacheEntry_init (U ''t1'') 1 (U ''a'') (U ''u1'') (U ''m1'') None,
                   CacheEntry_init (U ''t2'') 2 (U ''b'') (U ''u2'') (U ''m2'') None,
                   CacheEntry_init (U ''t3'') 3 (U ''c'') (U ''u3'') (U ''m3'') None]\<rparr>
      (CacheEntry_init (U ''t4'') 2 (U ''x'') (U ''u4'') (U ''m4'') None))
      (CacheEntry_init (U ''t5'') 2 (U ''y'') (U ''u5'') (U ''m5'') None))
   = [CacheEntry_init (U ''t1'') 1 (U ''a'') (U ''u1'') (U ''m1'') None,
      CacheEntry_init (U ''t5'') 2 (U ''y'') (U ''u5'') (U ''m5'') None,
      CacheEntry_init (U ''t3'') 3 (U ''c'') (U ''u3'') (U ''m3'') None]"
proof -
  let ?c = "\<lparr>cache_file = [U ''c.json''], season = Some 1,
       episodes = [CacheEntry_init (U ''t1'') 1 (U ''a'') (U ''u1'') (U ''m1'') None,
                   CacheEntry_init (U ''t2'') 2 (U ''b'') (U ''u2'') (U ''m2'') None,
                   CacheEntry_init (U ''t3'') 3 (U ''c'') (U ''u3'') (U ''m3'') None]\<rparr>"
  let ?e1 = "CacheEntry_init (U ''t4'') 2 (U ''x'') (U ''u4'') (U ''m4'') None"
  let ?e2 = "CacheEntry_init (U ''t5'') 2 (U ''y'') (U ''u5'') (U ''m5'') None"
  let ?c' = "add_episode (add_episode ?c ?e1) ?e2"
  have same: "episode_number ?e1 = episode_number ?e2"
    by (simp add: CacheEntry_init_def)
  have srt: "sorted (map episode_number (episodes ?c))"
    by (simp add: CacheEntry_init_def)
  note inst = C5_idempotent_upsert [OF same, of ?c]
  from inst have two: "filter (\<lambda>ep. episode_number ep = episode_number ?e2) (episodes ?c') = [?e2]"
    by blast
  from inst srt
  have others: "filter (\<lambda>ep. episode_number ep \<noteq> episode_number ?e2) (episodes ?c')
       = filter (\<lambda>ep. episode_number ep \<noteq> episode_number ?e2) (episodes ?c)"
    by blast
  from inst have "?c' = add_episode ?c ?e2"
    by blast
  then have "episodes ?c' = episodes (add_episode ?c ?e2)"
    by simp
  also have "\<dots> = [CacheEntry_init (U ''t1'') 1 (U ''a'') (U ''u1'') (U ''m1'') None, ?e2,
      CacheEntry_init (U ''t3'') 3 (U ''c'') (U ''u3'') (U ''m3'') None]"
    by (simp add: add_episode_def CacheEntry_init_def)
  finally show ?thesis using same by simp
qed

section \<open>Properties of load\<close>

lemma U_inj: "U s = U t \<longleftrightarrow> s = t"
  unfolding U_def by (simp add: inj_map_eq_map inj_on_def)


lemma from_dict_to_dict:
  "extracted_at e \<noteq> [] \<Longrightarrow> from_dict now (to_dict e) = Ok e"
  by (simp add: from_dict_def to_dict_def dict_get_def U_inj CacheEntry_init_def)

lemma collect_Ok: "collect (map Ok xs) = Ok xs"
  by (induction xs) simp_all

lemma collect_written:
  "\<forall>e\<in>set es. extracted_at e \<noteq> [] \<Longrightarrow>
     collect (map (from_dict now \<circ> to_dict) es) = Ok es"
  by (induction es) (simp_all add: from_dict_to_dict)

lemma decode_written:
  "\<forall>e\<in>set es. extracted_at e \<noteq> [] \<Longrightarrow>
     decode_episodes now (JList (map to_dict es)) = Ok es"
  by (simp add: decode_episodes_def collect_written)

lemma load_written:
  assumes "fs (cache_file c0) = Some (File (Json (save_data c)))"
    and "\<forall>e\<in>set (episodes c). extracted_at e \<noteq> []"
  shows "load fs now c0 = Some (True, c0\<lparr>season := season c, episodes := episodes c\<rparr>)"
  using assms
  by (simp add: load_def save_data_def dict_get_def U_inj decode_season_def decode_written
           split: option.splits)

lemma collect_Ok_D:
  "collect ds = Ok xs \<Longrightarrow> ds = map Ok xs"
proof (induction ds arbitrary: xs)
  case Nil
  then show ?case by simp
next
  case (Cons d ds)
  then show ?case
    by (cases d; cases "collect ds") auto
qed


lemma load_True:
  "load fs now c = Some (True, c') \<Longrightarrow> fs (cache_file c) \<noteq> None \<Longrightarrow>
    \<exists>kvs. fs (cache_file c) = Some (File (Json (JObj kvs))) \<and>
      (\<exists>items. iter_items (case dict_get kvs (U ''episodes'') of None \<Rightarrow> JList [] | Some v \<Rightarrow> v) = Some items \<and> map (from_dict now) items = map Ok (episodes c'))"
  by (auto simp: load_def decode_episodes_def dest!: collect_Ok_D split: option.splits node.splits content.splits json.splits decoded.splits)

section \<open>Properties of save\<close>

lemma mkdir_parents_Some:
  "mkdir_parents env fs d = Some fs1 \<Longrightarrow>
     fs1 = (\<lambda>p. if p \<in> set (prefixes d) then Some Dir else fs p) \<and> \<not> mkdir_fails env"
  by (auto simp: mkdir_parents_def split: if_splits)

lemma mkstemp_Some:
  assumes "mkstemp env fs d pre suf = Some (t, fs2)"
  shows "fs t = None" and "butlast t = d" and "t \<noteq> []"
    and "fs2 = fs(t \<mapsto> File (NotJson []))"
    and "\<exists>n\<in>set (tmp_names env). t = d @ [pre @ n @ suf]"
proof -
  from assms obtain i where
    f: "find (\<lambda>p. fs p = None) (map (\<lambda>n. d @ [pre @ n @ suf]) (tmp_names env)) = Some t"
    and fs2: "fs2 = fs(t \<mapsto> File (NotJson []))"
    by (auto simp: mkstemp_def split: option.splits)
  from f have free: "fs t = None" and mem: "t \<in> set (map (\<lambda>n. d @ [pre @ n @ suf]) (tmp_names env))"
    by (auto simp: find_Some_iff)
  show "fs t = None" by (rule free)
  show "fs2 = fs(t \<mapsto> File (NotJson []))" by (rule fs2)
  from mem show "\<exists>n\<in>set (tmp_names env). t = d @ [pre @ n @ suf]" by auto
  then show "butlast t = d" and "t \<noteq> []" by auto
qed

lemma not_prefix_of_butlast: "t \<noteq> [] \<Longrightarrow> t \<notin> set (prefixes (butlast t))"
proof
  assume "t \<noteq> []" and "t \<in> set (prefixes (butlast t))"
  then have "prefix t (butlast t)" by simp
  then have "length t \<le> length (butlast t)" by (rule prefix_length_le)
  with \<open>t \<noteq> []\<close> show False by (cases t rule: rev_cases) auto
qed

lemma save_True:
  assumes "save env fs c = (True, fs', tr)"
  shows "\<exists>t. tr = [Mkdir (butlast (cache_file c)), Mkstemp t, Write t (Json (save_data c)),
                   Replace t (cache_file c)] \<and>
             butlast t = butlast (cache_file c) \<and> fs t = None \<and>
             fs' (cache_file c) = Some (File (Json (save_data c))) \<and>
             (\<forall>p. p \<noteq> cache_file c \<and> p \<notin> set (prefixes (butlast (cache_file c))) \<longrightarrow> fs' p = fs p)"
proof -
  let ?d = "butlast (cache_file c)"
  from assms obtain fs1 where m: "mkdir_parents env fs ?d = Some fs1"
    by (auto simp: save_def Let_def split: option.splits)
  with assms obtain t fs2 where s: "mkstemp env fs1 ?d (U ''.tmp_'') (U ''.json'') = Some (t, fs2)"
    by (auto simp: save_def Let_def split: option.splits)
  note ms = mkstemp_Some [OF s]
  from assms m s have w: "write_fails env = None"
    by (auto simp: save_def Let_def write_json_def split: option.splits)
  let ?fs3 = "fs2(t \<mapsto> File (Json (save_data c)))"
  from assms m s w obtain fs4 where r: "os_replace env ?fs3 t (cache_file c) = Some fs4"
    and fs': "fs' = fs4"
    and tr: "tr = [Mkdir ?d, Mkstemp t, Write t (Json (save_data c)), Replace t (cache_file c)]"
    by (auto simp: save_def Let_def write_json_def split: option.splits)
  from ms(2,3) have tn: "t \<notin> set (prefixes ?d)"
    using not_prefix_of_butlast [of t] by simp
  from mkdir_parents_Some [OF m] have fs1: "fs1 = (\<lambda>p. if p \<in> set (prefixes ?d) then Some Dir else fs p)"
    by simp
  from ms(1) tn fs1 have free: "fs t = None" by simp
  from r have tgt: "fs4 (cache_file c) = Some (File (Json (save_data c)))"
    by (auto simp: os_replace_def split: if_splits)
  have other: "fs4 p = fs p" if "p \<noteq> cache_file c" "p \<notin> set (prefixes ?d)" for p
    using r that ms(4) fs1 free
    by (auto simp: os_replace_def split: if_splits)
  from tr ms(2) free tgt other fs' show ?thesis by blast
qed

lemma save_False_clean:
  assumes "save env fs c = (False, fs', tr)" and "\<not> unlink_fails env"
  shows "\<forall>p. p \<notin> set (prefixes (butlast (cache_file c))) \<longrightarrow> fs' p = fs p"
    and "\<forall>p. fs' p = fs p \<or> fs' p = Some Dir"
proof -
  let ?d = "butlast (cache_file c)"
  have *: "(p \<notin> set (prefixes ?d) \<longrightarrow> fs' p = fs p) \<and> (fs' p = fs p \<or> fs' p = Some Dir)" for p
  proof (cases "mkdir_parents env fs ?d")
    case None
    with assms show ?thesis by (simp add: save_def Let_def)
  next
    case (Some fs1)
    note fs1 = mkdir_parents_Some [OF Some]
    show ?thesis
    proof (cases "mkstemp env fs1 ?d (U ''.tmp_'') (U ''.json'')")
      case None
      with assms Some fs1 show ?thesis by (auto simp: save_def Let_def)
    next
      case (Some a)
      then obtain t fs2 where s: "mkstemp env fs1 ?d (U ''.tmp_'') (U ''.json'') = Some (t, fs2)"
        by (cases a) auto
      note ms = mkstemp_Some [OF s]
      from assms \<open>mkdir_parents env fs ?d = Some fs1\<close> s
      have "fs' = fs1"
        using ms(1,4)
        by (auto simp: save_def Let_def write_json_def os_unlink_def fun_upd_def
                 split: option.splits if_splits)
      with fs1 show ?thesis by auto
    qed
  qed
  from * show "\<forall>p. p \<notin> set (prefixes (butlast (cache_file c))) \<longrightarrow> fs' p = fs p" by blast
  from * show "\<forall>p. fs' p = fs p \<or> fs' p = Some Dir" by blast
qed

lemma save_False_target:
  assumes "save env fs c = (False, fs', tr)" and "fs (cache_file c) \<noteq> None" and "cache_file c \<noteq> []"
  shows "fs' (cache_file c) = fs (cache_file c)"
proof -
  let ?d = "butlast (cache_file c)"
  from assms(3) have tn: "cache_file c \<notin> set (prefixes ?d)"
    by (rule not_prefix_of_butlast)
  show ?thesis
  proof (cases "mkdir_parents env fs ?d")
    case None
    with assms show ?thesis by (simp add: save_def Let_def)
  next
    case (Some fs1)
    note fs1 = mkdir_parents_Some [OF Some]
    with tn have same: "fs1 (cache_file c) = fs (cache_file c)" by simp
    show ?thesis
    proof (cases "mkstemp env fs1 ?d (U ''.tmp_'') (U ''.json'')")
      case None
      with assms Some same show ?thesis by (auto simp: save_def Let_def)
    next
      case (Some a)
      then obtain t fs2 where s: "mkstemp env fs1 ?d (U ''.tmp_'') (U ''.json'') = Some (t, fs2)"
        by (cases a) auto
      note ms = mkstemp_Some [OF s]
      from ms(1) same assms(2) have ne: "t \<noteq> cache_file c" by auto
      from assms(1) \<open>mkdir_parents env fs ?d = Some fs1\<close> s ne
      have "fs' (cache_file c) = fs1 (cache_file c)"
        using ms(4)
        by (auto simp: save_def Let_def write_json_def os_unlink_def
                 split: option.splits if_splits)
      with same show ?thesis by simp
    qed
  qed
qed

lemma save_faults_False:
  "mkdir_fails env \<or> tmp_names env = [] \<or> write_fails env \<noteq> None \<or> replace_fails env
     \<Longrightarrow> fst (save env fs c) = False"
  by (auto simp: save_def Let_def mkdir_parents_def mkstemp_def write_json_def os_replace_def
           split: option.splits prod.splits bool.splits)

lemma save_no_faults_True:
  assumes "\<not> mkdir_fails env" "write_fails env = None" "\<not> replace_fails env"
    and "\<forall>p\<in>set (prefixes (butlast (cache_file c))). \<forall>x. fs p \<noteq> Some (File x)"
    and "\<exists>n\<in>set (tmp_names env). fs (butlast (cache_file c) @ [U ''.tmp_'' @ n @ U ''.json'']) = None"
    and "fs (cache_file c) \<noteq> Some Dir" and "cache_file c \<noteq> []"
  shows "fst (save env fs c) = True"
proof -
  let ?d = "butlast (cache_file c)"
  let ?fs1 = "\<lambda>p. if p \<in> set (prefixes ?d) then Some Dir else fs p"
  from assms(1,4) have m: "mkdir_parents env fs ?d = Some ?fs1"
    by (auto simp: mkdir_parents_def list_ex_iff split: option.splits node.splits)
  from assms(5) obtain n where n: "n \<in> set (tmp_names env)"
    and free: "fs (?d @ [U ''.tmp_'' @ n @ U ''.json'']) = None" by blast
  have "?d @ [U ''.tmp_'' @ n @ U ''.json''] \<notin> set (prefixes ?d)"
    using not_prefix_of_butlast [of "?d @ [U ''.tmp_'' @ n @ U ''.json'']"] by simp
  with free have "?fs1 (?d @ [U ''.tmp_'' @ n @ U ''.json'']) = None" by simp
  with n have "find (\<lambda>p. ?fs1 p = None) (map (\<lambda>n. ?d @ [U ''.tmp_'' @ n @ U ''.json'']) (tmp_names env)) \<noteq> None"
    unfolding find_None_iff by (metis (mono_tags, lifting) imageI list.set_map)
  then obtain t fs2 where s: "mkstemp env ?fs1 ?d (U ''.tmp_'') (U ''.json'') = Some (t, fs2)"
    by (auto simp: mkstemp_def split: option.splits)
  note ms = mkstemp_Some [OF s]
  from assms(7) have "cache_file c \<notin> set (prefixes ?d)" by (rule not_prefix_of_butlast)
  with assms(6) have "?fs1 (cache_file c) \<noteq> Some Dir" by simp
  with ms(4) have "(fs2(t \<mapsto> File (Json (save_data c)))) (cache_file c) \<noteq> Some Dir"
    by auto
  with assms(3) have "os_replace env (fs2(t \<mapsto> File (Json (save_data c)))) t (cache_file c) \<noteq> None"
    by (simp add: os_replace_def)
  with m s assms(2) show ?thesis
    by (auto simp: save_def Let_def write_json_def split: option.splits)
qed

section \<open>Claims about load and save\<close>




text \<open>
  C6. When \<open>save\<close> succeeds on a store whose entries all have a non-empty
  \<open>extracted_at\<close>, \<open>load\<close> on a fresh \<open>Cache\<close> bound to the same location succeeds
  and yields the same season and the same episode list, field for field.
\<close>

theorem C6_round_trip:
  "save env fs c = (True, fs', tr) \<Longrightarrow> \<forall>e\<in>set (episodes c). extracted_at e \<noteq> [] \<Longrightarrow>
     load fs' now (Cache_init (cache_file c)) = Some (True, c)"
proof -
  assume s: "save env fs c = (True, fs', tr)" and p: "\<forall>e\<in>set (episodes c). extracted_at e \<noteq> []"
  from save_True [OF s] have "fs' (cache_file c) = Some (File (Json (save_data c)))"
    by blast
  then have "fs' (cache_file (Cache_init (cache_file c))) = Some (File (Json (save_data c)))"
    by (simp add: Cache_init_def)
  from load_written [where fs = fs' and ?c0.0 = "Cache_init (cache_file c)" and c = c, OF this p]
  show ?thesis by (simp add: Cache_init_def)
qed

theorem C6_round_trip_witness:
  "fst (save (no_faults [U ''a1'']) no_files
         \<lparr>cache_file = [U ''d'', U ''c.json''], season = Some 2,
          episodes = [CacheEntry_init (U ''t3'') 3 (U ''c'') (U ''u3'') (U ''m3'') None,
                      CacheEntry_init (U ''t1'') 1 (U ''a'') (U ''u1'') (U ''m1'') None]\<rparr>) \<and>
   load (fst (snd (save (no_faults [U ''a1'']) no_files
         \<lparr>cache_file = [U ''d'', U ''c.json''], season = Some 2,
          episodes = [CacheEntry_init (U ''t3'') 3 (U ''c'') (U ''u3'') (U ''m3'') None,
                      CacheEntry_init (U ''t1'') 1 (U ''a'') (U ''u1'') (U ''m1'') None]\<rparr>)))
        (U ''later'') (Cache_init [U ''d'', U ''c.json''])
     = Some (True,
         \<lparr>cache_file = [U ''d'', U ''c.json''], season = Some 2,
          episodes = [CacheEntry_init (U ''t3'') 3 (U ''c'') (U ''u3'') (U ''m3'') None,
                      CacheEntry_init (U ''t1'') 1 (U ''a'') (U ''u1'') (U ''m1'') None]\<rparr>)"
proof -
  let ?c = "\<lparr>cache_file = [U ''d'', U ''c.json''], season = Some 2,
          episodes = [CacheEntry_init (U ''t3'') 3 (U ''c'') (U ''u3'') (U ''m3'') None,
                      CacheEntry_init (U ''t1'') 1 (U ''a'') (U ''u1'') (U ''m1'') None]\<rparr>"
  let ?r = "save (no_faults [U ''a1'']) no_files ?c"
  have ok: "fst ?r = True"
    by (rule save_no_faults_True) (simp_all add: no_faults_def no_files_def)
  then have s: "?r = (True, fst (snd ?r), snd (snd ?r))"
    by (simp add: prod_eq_iff)
  have p: "\<forall>e\<in>set (episodes ?c). extracted_at e \<noteq> []"
    by (simp add: CacheEntry_init_def U_def)
  from C6_round_trip [OF s p, of "U ''later''"] ok
  show ?thesis by simp
qed

text \<open>
  C10. \<open>load\<close> takes the episode list from the file as it stands. A file written from
  any list \<open>es\<close>, sorted or not, with or without repeated numbers, loads to exactly
  \<open>es\<close>; in general, when \<open>load\<close> succeeds on a document whose \<open>episodes\<close> member is
  an array, the store's list is that array decoded element by element, in file order,
  nothing dropped or moved. Only a later \<open>add_episode\<close> sorts the list.
\<close>

theorem C10_load_keeps_file_order:
  "(fs (cache_file c) = Some (File (Json (save_data \<lparr>cache_file = q, season = s, episodes = es\<rparr>))) \<and>
    (\<forall>e\<in>set es. extracted_at e \<noteq> []) \<longrightarrow>
      load fs now c = Some (True, c\<lparr>season := s, episodes := es\<rparr>) \<and>
      get_all_episodes (c\<lparr>season := s, episodes := es\<rparr>) = es) \<and>
   (load fs now c = Some (True, c') \<and> fs (cache_file c) = Some (File (Json (JObj kvs))) \<and>
    dict_get kvs (U ''episodes'') = Some (JList xs) \<longrightarrow>
      map (from_dict now) xs = map Ok (get_all_episodes c')) \<and>
   sorted (map episode_number (get_all_episodes (add_episode c' e)))"
proof -
  have a: "load fs now c = Some (True, c\<lparr>season := s, episodes := es\<rparr>) \<and>
      get_all_episodes (c\<lparr>season := s, episodes := es\<rparr>) = es"
    if "fs (cache_file c) = Some (File (Json (save_data \<lparr>cache_file = q, season = s, episodes = es\<rparr>))) \<and>
    (\<forall>e\<in>set es. extracted_at e \<noteq> [])"
    using that
      load_written [where fs = fs and ?c0.0 = c and c = "\<lparr>cache_file = q, season = s, episodes = es\<rparr>" and now = now]
    by (simp add: get_all_episodes_def)
  have b: "map (from_dict now) xs = map Ok (get_all_episodes c')"
    if "load fs now c = Some (True, c') \<and> fs (cache_file c) = Some (File (Json (JObj kvs))) \<and>
        dict_get kvs (U ''episodes'') = Some (JList xs)"
    using that
    by (auto simp: load_def decode_episodes_def get_all_episodes_def
             dest!: collect_Ok_D split: decoded.splits)
  have c: "sorted (map episode_number (get_all_episodes (add_episode c' e)))"
    by (simp add: get_all_episodes_def episodes_add_episode)
  from a b c show ?thesis by blast
qed

theorem C10_load_keeps_file_order_witness:
  "load (no_files([U ''c.json''] \<mapsto> File (Json (save_data
           \<lparr>cache_file = [U ''c.json''], season = Some 1,
            episodes = [CacheEntry_init (U ''t3'') 3 (U ''c'') (U ''u3'') (U ''m3'') None,
                        CacheEntry_init (U ''t1'') 1 (U ''a'') (U ''u1'') (U ''m1'') None,
                        CacheEntry_init (U ''t4'') 3 (U ''d'') (U ''u4'') (U ''m4'') None]\<rparr>))))
        (U ''now'') (Cache_init [U ''c.json''])
     = Some (True,
           \<lparr>cache_file = [U ''c.json''], season = Some 1,
            episodes = [CacheEntry_init (U ''t3'') 3 (U ''c'') (U ''u3'') (U ''m3'') None,
                        CacheEntry_init (U ''t1'') 1 (U ''a'') (U ''u1'') (U ''m1'') None,
                        CacheEntry_init (U ''t4'') 3 (U ''d'') (U ''u4'') (U ''m4'') None]\<rparr>) \<and>
   \<not> sorted (map episode_number
            [CacheEntry_init (U ''t3'') 3 (U ''c'') (U ''u3'') (U ''m3'') None,
             CacheEntry_init (U ''t1'') 1 (U ''a'') (U ''u1'') (U ''m1'') None,
             CacheEntry_init (U ''t4'') 3 (U ''d'') (U ''u4'') (U ''m4'') None]) \<and>
   \<not> distinct (map episode_number
            [CacheEntry_init (U ''t3'') 3 (U ''c'') (U ''u3'') (U ''m3'') None,
             CacheEntry_init (U ''t1'') 1 (U ''a'') (U ''u1'') (U ''m1'') None,
             CacheEntry_init (U ''t4'') 3 (U ''d'') (U ''u4'') (U ''m4'') None]) \<and>
   map episode_number (get_all_episodes (add_episode
           \<lparr>cache_file = [U ''c.json''], season = Some 1,
            episodes = [CacheEntry_init (U ''t3'') 3 (U ''c'') (U ''u3'') (U ''m3'') None,
                        CacheEntry_init (U ''t1'') 1 (U ''a'') (U ''u1'') (U ''m1'') None,
                        CacheEntry_init (U ''t4'') 3 (U ''d'') (U ''u4'') (U ''m4'') None]\<rparr>
           (CacheEntry_init (U ''t2'') 2 (U ''b'') (U ''u2'') (U ''m2'') None)))
     = [1, 2, 3, 3]"
proof -
  let ?es = "[CacheEntry_init (U ''t3'') 3 (U ''c'') (U ''u3'') (U ''m3'') None,
              CacheEntry_init (U ''t1'') 1 (U ''a'') (U ''u1'') (U ''m1'') None,
              CacheEntry_init (U ''t4'') 3 (U ''d'') (U ''u4'') (U ''m4'') None]"
  let ?d = "\<lparr>cache_file = [U ''c.json''], season = Some 1, episodes = ?es\<rparr>"
  let ?fs = "no_files([U ''c.json''] \<mapsto> File (Json (save_data ?d)))"
  have h: "?fs (cache_file (Cache_init [U ''c.json''])) = Some (File (Json (save_data ?d))) \<and>
           (\<forall>e\<in>set ?es. extracted_at e \<noteq> [])"
    by (simp add: Cache_init_def CacheEntry_init_def U_def)
  from C10_load_keeps_file_order [where fs = ?fs and c = "Cache_init [U ''c.json'']"
      and q = "[U ''c.json'']" and s = "Some 1" and es = ?es and now = "U ''now''"] h
  have "load ?fs (U ''now'') (Cache_init [U ''c.json''])
     = Some (True, (Cache_init [U ''c.json''])\<lparr>season := Some 1, episodes := ?es\<rparr>)"
    by blast
  then have 1: "load ?fs (U ''now'') (Cache_init [U ''c.json'']) = Some (True, ?d)"
    by (simp add: Cache_init_def)
  have 2: "\<not> sorted (map episode_number ?es) \<and> \<not> distinct (map episode_number ?es)"
    by (simp add: CacheEntry_init_def)
  have 3: "map episode_number (get_all_episodes (add_episode ?d
           (CacheEntry_init (U ''t2'') 2 (U ''b'') (U ''u2'') (U ''m2'') None))) = [1, 2, 3, 3]"
    by (simp add: get_all_episodes_def add_episode_def CacheEntry_init_def)
  from 1 2 3 show ?thesis by simp
qed

text \<open>
  C1 (as amended). When \<open>save\<close> returns success it has made exactly four calls: the
  directories, a temporary file in the target's own directory (a name free before),
  the write of the whole collection to it, and one \<open>os.replace\<close> onto the target; the
  target then holds the collection and every other file is as before. With no fault of
  the operating system and a usable location it does return success. If creating the
  directories, drawing the temporary name, writing or replacing fails, \<open>save\<close> returns
  failure, and a target that existed is unchanged. The temporary file is removed, and no
  file is added or changed at all, provided the removal itself does not fail: an
  \<open>OSError\<close> of \<open>os.unlink\<close> is ignored, and the temporary file then stays.
\<close>

theorem C1_save_atomic:
  "(save env fs c = (True, fs', tr) \<longrightarrow>
      (\<exists>t. tr = [Mkdir (butlast (cache_file c)), Mkstemp t, Write t (Json (save_data c)),
                  Replace t (cache_file c)] \<and>
           butlast t = butlast (cache_file c) \<and> fs t = None \<and>
           fs' (cache_file c) = Some (File (Json (save_data c))) \<and>
           (\<forall>p. p \<noteq> cache_file c \<and> p \<notin> set (prefixes (butlast (cache_file c)))
                \<longrightarrow> fs' p = fs p))) \<and>
   (\<not> mkdir_fails env \<and> write_fails env = None \<and> \<not> replace_fails env \<and>
    (\<forall>p\<in>set (prefixes (butlast (cache_file c))). \<forall>x. fs p \<noteq> Some (File x)) \<and>
    (\<exists>n\<in>set (tmp_names env). fs (butlast (cache_file c) @ [U ''.tmp_'' @ n @ U ''.json'']) = None) \<and>
    fs (cache_file c) \<noteq> Some Dir \<and> cache_file c \<noteq> []
      \<longrightarrow> fst (save env fs c) = True) \<and>
   (mkdir_fails env \<or> tmp_names env = [] \<or> write_fails env \<noteq> None \<or> replace_fails env
      \<longrightarrow> fst (save env fs c) = False) \<and>
   (save env fs c = (False, fs', tr) \<and> fs (cache_file c) \<noteq> None \<and> cache_file c \<noteq> []
      \<longrightarrow> fs' (cache_file c) = fs (cache_file c)) \<and>
   (save env fs c = (False, fs', tr) \<and> \<not> unlink_fails env
      \<longrightarrow> (\<forall>p. p \<notin> set (prefixes (butlast (cache_file c))) \<longrightarrow> fs' p = fs p) \<and>
          (\<forall>p. fs' p = fs p \<or> fs' p = Some Dir))"
proof -
  have a: "\<exists>t. tr = [Mkdir (butlast (cache_file c)), Mkstemp t, Write t (Json (save_data c)),
                  Replace t (cache_file c)] \<and>
           butlast t = butlast (cache_file c) \<and> fs t = None \<and>
           fs' (cache_file c) = Some (File (Json (save_data c))) \<and>
           (\<forall>p. p \<noteq> cache_file c \<and> p \<notin> set (prefixes (butlast (cache_file c)))
                \<longrightarrow> fs' p = fs p)"
    if "save env fs c = (True, fs', tr)"
    using that by (rule save_True)
  have b: "fst (save env fs c) = True"
    if "\<not> mkdir_fails env \<and> write_fails env = None \<and> \<not> replace_fails env \<and>
    (\<forall>p\<in>set (prefixes (butlast (cache_file c))). \<forall>x. fs p \<noteq> Some (File x)) \<and>
    (\<exists>n\<in>set (tmp_names env). fs (butlast (cache_file c) @ [U ''.tmp_'' @ n @ U ''.json'']) = None) \<and>
    fs (cache_file c) \<noteq> Some Dir \<and> cache_file c \<noteq> []"
    using that by (intro save_no_faults_True) simp_all
  have c: "fst (save env fs c) = False"
    if "mkdir_fails env \<or> tmp_names env = [] \<or> write_fails env \<noteq> None \<or> replace_fails env"
    using that by (rule save_faults_False)
  have d: "fs' (cache_file c) = fs (cache_file c)"
    if "save env fs c = (False, fs', tr) \<and> fs (cache_file c) \<noteq> None \<and> cache_file c \<noteq> []"
    using that save_False_target [of env fs c fs' tr] by simp
  have e: "(\<forall>p. p \<notin> set (prefixes (butlast (cache_file c))) \<longrightarrow> fs' p = fs p) \<and>
          (\<forall>p. fs' p = fs p \<or> fs' p = Some Dir)"
    if "save env fs c = (False, fs', tr) \<and> \<not> unlink_fails env"
    using that save_False_clean [of env fs c fs' tr] by simp
  show ?thesis
    apply (intro conjI impI)
    subgoal by (rule a)
    subgoal by (rule b) simp
    subgoal by (rule c)
    subgoal by (rule d) simp
    subgoal using e by simp
    subgoal using e by simp
    done
qed

text \<open>
  C1 as stated fails where the write fails and the unlink fails too: \<open>save\<close> returns
  failure and the half-written temporary file remains beside the target.
\<close>

theorem C1_stray_temporary_counterexample:
  "fst (save \<lparr>mkdir_fails = False, tmp_names = [U ''a1''], write_fails = Some (U ''{''),
              replace_fails = False, unlink_fails = True\<rparr>
             (no_files([U ''c.json''] \<mapsto> File (Json JNull)))
             (Cache_init [U ''c.json''])) = False \<and>
   (no_files([U ''c.json''] \<mapsto> File (Json JNull))) [U ''.tmp_a1.json''] = None \<and>
   fst (snd (save \<lparr>mkdir_fails = False, tmp_names = [U ''a1''], write_fails = Some (U ''{''),
              replace_fails = False, unlink_fails = True\<rparr>
             (no_files([U ''c.json''] \<mapsto> File (Json JNull)))
             (Cache_init [U ''c.json'']))) [U ''.tmp_a1.json'']
     = Some (File (NotJson (U ''{'')))"
  by (simp add: save_def mkdir_parents_def mkstemp_def write_json_def os_unlink_def
        no_files_def Cache_init_def U_def)


theorem C1_save_atomic_witness:
  "fst (save (no_faults [U ''a1''])
          (no_files([] \<mapsto> Dir, [U ''c.json''] \<mapsto> File (Json JNull)))
          \<lparr>cache_file = [U ''c.json''], season = Some 1, episodes = []\<rparr>) = True \<and>
   fst (snd (save (no_faults [U ''a1''])
          (no_files([] \<mapsto> Dir, [U ''c.json''] \<mapsto> File (Json JNull)))
          \<lparr>cache_file = [U ''c.json''], season = Some 1, episodes = []\<rparr>)) [U ''c.json'']
     = Some (File (Json (JObj [(U ''season'', JInt 1), (U ''episodes'', JList [])]))) \<and>
   fst (save ((no_faults [U ''a1''])\<lparr>write_fails := Some (U ''{'')\<rparr>)
          (no_files([] \<mapsto> Dir, [U ''c.json''] \<mapsto> File (Json JNull)))
          \<lparr>cache_file = [U ''c.json''], season = Some 1, episodes = []\<rparr>) = False \<and>
   fst (snd (save ((no_faults [U ''a1''])\<lparr>write_fails := Some (U ''{'')\<rparr>)
          (no_files([] \<mapsto> Dir, [U ''c.json''] \<mapsto> File (Json JNull)))
          \<lparr>cache_file = [U ''c.json''], season = Some 1, episodes = []\<rparr>)) [U ''c.json'']
     = Some (File (Json JNull)) \<and>
   fst (snd (save ((no_faults [U ''a1''])\<lparr>write_fails := Some (U ''{'')\<rparr>)
          (no_files([] \<mapsto> Dir, [U ''c.json''] \<mapsto> File (Json JNull)))
          \<lparr>cache_file = [U ''c.json''], season = Some 1, episodes = []\<rparr>)) [U ''.tmp_a1.json'']
     = None"
proof -
  let ?fs = "no_files([] \<mapsto> Dir, [U ''c.json''] \<mapsto> File (Json JNull))"
  let ?c = "\<lparr>cache_file = [U ''c.json''], season = Some 1, episodes = []\<rparr>"
  let ?ok = "no_faults [U ''a1'']"
  let ?bad = "(no_faults [U ''a1''])\<lparr>write_fails := Some (U ''{'')\<rparr>"
  let ?r = "save ?ok ?fs ?c"
  let ?q = "save ?bad ?fs ?c"
  note good = C1_save_atomic [where env = ?ok and fs = ?fs and c = ?c
      and fs' = "fst (snd ?r)" and tr = "snd (snd ?r)"]
  note fail = C1_save_atomic [where env = ?bad and fs = ?fs and c = ?c
      and fs' = "fst (snd ?q)" and tr = "snd (snd ?q)"]
  have hyp: "\<not> mkdir_fails ?ok \<and> write_fails ?ok = None \<and> \<not> replace_fails ?ok \<and>
    (\<forall>p\<in>set (prefixes (butlast (cache_file ?c))). \<forall>x. ?fs p \<noteq> Some (File x)) \<and>
    (\<exists>n\<in>set (tmp_names ?ok). ?fs (butlast (cache_file ?c) @ [U ''.tmp_'' @ n @ U ''.json'']) = None) \<and>
    ?fs (cache_file ?c) \<noteq> Some Dir \<and> cache_file ?c \<noteq> []"
    by (simp add: no_faults_def no_files_def U_def)
  from good hyp have 1: "fst ?r = True" by blast
  then have "?r = (True, fst (snd ?r), snd (snd ?r))"
    by (simp add: prod_eq_iff)
  with good have "fst (snd ?r) (cache_file ?c) = Some (File (Json (save_data ?c)))"
    by blast
  then have 2: "fst (snd ?r) [U ''c.json'']
      = Some (File (Json (JObj [(U ''season'', JInt 1), (U ''episodes'', JList [])])))"
    by (simp add: save_data_def)
  have "write_fails ?bad \<noteq> None" by simp
  with fail have 3: "fst ?q = False" by blast
  then have q: "?q = (False, fst (snd ?q), snd (snd ?q))"
    by (simp add: prod_eq_iff)
  have "?fs (cache_file ?c) \<noteq> None \<and> cache_file ?c \<noteq> []" by simp
  with fail q have "fst (snd ?q) (cache_file ?c) = ?fs (cache_file ?c)" by blast
  then have 4: "fst (snd ?q) [U ''c.json''] = Some (File (Json JNull))" by simp
  have "\<not> unlink_fails ?bad" by (simp add: no_faults_def)
  with fail q have "\<forall>p. p \<notin> set (prefixes (butlast (cache_file ?c))) \<longrightarrow> fst (snd ?q) p = ?fs p"
    by blast
  then have "fst (snd ?q) [U ''.tmp_a1.json''] = ?fs [U ''.tmp_a1.json'']"
    by simp
  then have 5: "fst (snd ?q) [U ''.tmp_a1.json''] = None"
    by (simp add: no_files_def U_def)
  from 1 2 3 4 5 show ?thesis by simp
qed

section \<open>Claims about the preprocessor, the extractor and the selector\<close>

lemma unpack2_tuple_items: "unpack2 (tuple_items t) = Inl ValueError"
  by (cases t) (simp add: unpack2_def tuple_items_def)

lemma process_items_aborts:
  "process_items w nd now len i (item # rest) cache log = (log, Inl ValueError)"
  by (simp add: unpack2_tuple_items)

lemma process_url_list_aborts:
  "urls \<noteq> [] \<Longrightarrow>
     process_url_list w env nd now fs urls cache_path season_no = (False, fs, [Error ValueError])"
  by (cases urls) (simp_all add: process_url_list_def process_items_aborts del: process_items.simps)

text \<open>
  C3. The claim: a source that fails to resolve is logged and skipped, and the batch
  goes on with the remaining sources. The code: the extractor returns three values and
  the loop unpacks two, so the first source, resolved or not, raises \<open>ValueError\<close>;
  the outer handler prints it and returns \<open>False\<close>. At a list of two sources, the
  first without a manifest URL and the second with one, nothing is logged as skipped,
  the second source is never visited and nothing is saved.
\<close>

theorem C3_first_source_aborts_batch:
  "process_url_list two_sources (no_faults [U ''a1'']) ascii_digits_only (U ''now'') no_files
     [U ''one.html'', U ''two.html''] [U ''c.json''] 1
   = (False, no_files, [Error ValueError])"
  by (rule process_url_list_aborts) simp


lemma rx_findall_first:
  "(case rx_findall r s of [] \<Rightarrow> None | m # ms \<Rightarrow> Some m) = map_option (rx_text s) (rx_search r s)"
  by (subst rx_findall.simps) (simp add: rx_text_def split: option.splits)

lemma py_in_nonempty: "x \<noteq> [] \<Longrightarrow> py_in x s \<Longrightarrow> s \<noteq> []"
  by (cases s) auto

lemma first_scan_Nil: "first_scan [] = None"
  by (simp add: first_scan_def m3u8_pattern_def lits_def U_def)

lemma scan_scripts_first:
  "scan_scripts scripts =
     (case find (\<lambda>s. script_scan s \<noteq> None) scripts of None \<Rightarrow> None | Some s \<Rightarrow> script_scan s)"
proof (induction scripts)
  case Nil
  show ?case by simp
next
  case (Cons s scripts)
  have f: "(case rx_findall m3u8_pattern x of [] \<Rightarrow> None | m # ms \<Rightarrow> Some m) = first_scan x" for x
    by (simp add: rx_findall_first first_scan_def)
  show ?case
  proof (cases "tag_string s")
    case None
    with Cons show ?thesis by (simp add: script_scan_def)
  next
    case (Some x)
    show ?thesis
    proof (cases "first_scan x")
      case None
      with Some Cons f [of x] show ?thesis
        by (auto simp: script_scan_def split: list.splits)
    next
      case (Some y)
      with \<open>tag_string s = Some x\<close> f [of x] first_scan_Nil show ?thesis
        by (auto simp: script_scan_def split: list.splits)
    qed
  qed
qed

lemma extract_m3u8_url_order:
  "extract_m3u8_url sp html =
     (case strategy1 sp of
        Some u \<Rightarrow> Some u
      | None \<Rightarrow>
          (case first_scan html of
             Some u \<Rightarrow> Some u
           | None \<Rightarrow> scan_scripts (soup_find_all sp (U ''script''))))"
proof -
  have f: "(case rx_findall m3u8_pattern html of m # ms \<Rightarrow> Some m
            | [] \<Rightarrow> scan_scripts (soup_find_all sp (U ''script'')))
         = (case first_scan html of Some u \<Rightarrow> Some u
            | None \<Rightarrow> scan_scripts (soup_find_all sp (U ''script'')))"
    using rx_findall_first [of m3u8_pattern html]
    by (auto simp: first_scan_def split: list.splits option.splits)
  have ne: "py_in (U ''hls.m3u8'') u \<Longrightarrow> u \<noteq> []" for u
    by (rule py_in_nonempty [of "U ''hls.m3u8''"]) (simp_all add: U_def)
  show ?thesis
    unfolding extract_m3u8_url_def Let_def f strategy1_def
    using ne by (auto split: option.splits)
qed


lemma rx_search_leftmost:
  "rx_search r s = Some (i, ls) \<Longrightarrow>
     i \<le> length s \<and> rx_match r (drop i s) = Some ls \<and> (\<forall>j<i. rx_match r (drop j s) = None)"
proof (induction s arbitrary: i)
  case Nil
  then show ?case by auto
next
  case (Cons ch t)
  show ?case
  proof (cases "rx_match r (ch # t)")
    case (Some a)
    with Cons.prems show ?thesis by simp
  next
    case None
    with Cons.prems obtain i' where i: "i = Suc i'" and s: "rx_search r t = Some (i', ls)"
      by auto
    from Cons.IH [OF s] have ih: "i' \<le> length t" "rx_match r (drop i' t) = Some ls"
      "\<forall>j<i'. rx_match r (drop j t) = None" by auto
    have "rx_match r (drop j (ch # t)) = None" if "j < i" for j
    proof (cases j)
      case 0
      with None show ?thesis by simp
    next
      case (Suc j')
      with that i ih(3) show ?thesis by simp
    qed
    with i ih show ?thesis by simp
  qed
qed

text \<open>
  C7. When the first \<open>og:url\<close> metadata tag (the one \<open>soup.find\<close> returns) has a
  content with both \<open>hls.m3u8\<close> and \<open>viewerToken=\<close>, the extractor returns that
  content, whatever the document text and the script blocks hold. In general the result
  is that of strategy 1 if it has one, else the first match in the raw text if there is
  one, else the first match in the first script block that has one; and the first match
  of a scan is the match at the leftmost position where the pattern matches.
\<close>

theorem C7_manifest_precedence:
  "(soup_find sp (U ''meta'') (U ''og:url'') = Some t \<and> attrs t (U ''content'') = Some u \<and>
    py_in (U ''hls.m3u8'') u \<and> py_in (U ''viewerToken='') u
      \<longrightarrow> extract_m3u8_url sp html = Some u) \<and>
   extract_m3u8_url sp html =
     (case strategy1 sp of
        Some u \<Rightarrow> Some u
      | None \<Rightarrow>
          (case first_scan html of
             Some u \<Rightarrow> Some u
           | None \<Rightarrow>
               (case find (\<lambda>s. script_scan s \<noteq> None) (soup_find_all sp (U ''script'')) of
                  None \<Rightarrow> None
                | Some s \<Rightarrow> script_scan s))) \<and>
   (rx_search m3u8_pattern html = Some (i, ls) \<longrightarrow>
      first_scan html = Some (take (sum_list ls) (drop i html)) \<and>
      rx_match m3u8_pattern (drop i html) = Some ls \<and>
      (\<forall>j<i. rx_match m3u8_pattern (drop j html) = None))"
proof -
  have order: "extract_m3u8_url sp html =
     (case strategy1 sp of
        Some u \<Rightarrow> Some u
      | None \<Rightarrow>
          (case first_scan html of
             Some u \<Rightarrow> Some u
           | None \<Rightarrow>
               (case find (\<lambda>s. script_scan s \<noteq> None) (soup_find_all sp (U ''script'')) of
                  None \<Rightarrow> None
                | Some s \<Rightarrow> script_scan s)))"
    by (simp only: extract_m3u8_url_order scan_scripts_first)
  have meta: "extract_m3u8_url sp html = Some u"
    if "soup_find sp (U ''meta'') (U ''og:url'') = Some t \<and> attrs t (U ''content'') = Some u \<and>
        py_in (U ''hls.m3u8'') u \<and> py_in (U ''viewerToken='') u"
  proof -
    from that have "strategy1 sp = Some u" by (simp add: strategy1_def)
    then show ?thesis by (simp add: extract_m3u8_url_order)
  qed
  have left: "first_scan html = Some (take (sum_list ls) (drop i html)) \<and>
      rx_match m3u8_pattern (drop i html) = Some ls \<and>
      (\<forall>j<i. rx_match m3u8_pattern (drop j html) = None)"
    if "rx_search m3u8_pattern html = Some (i, ls)"
    using that rx_search_leftmost [OF that] by (simp add: first_scan_def rx_text_def)
  from meta order left show ?thesis by blast
qed

theorem C7_manifest_precedence_witness:
  "extract_m3u8_url
     [\<lparr>tag_name = U ''meta'',
       attrs = [U ''property'' \<mapsto> U ''og:url'',
                U ''content'' \<mapsto> U ''https://a.example/v/hls.m3u8?viewerToken=AAA''],
       tag_string = None\<rparr>,
      \<lparr>tag_name = U ''script'', attrs = Map.empty,
       tag_string = Some (U ''var u = https://b.example/w/hls.m3u8?viewerToken=BBB;'')\<rparr>]
     (U ''<html> https://b.example/w/hls.m3u8?viewerToken=BBB </html>'')
   = Some (U ''https://a.example/v/hls.m3u8?viewerToken=AAA'') \<and>
   extract_m3u8_url
     [\<lparr>tag_name = U ''script'', attrs = Map.empty,
       tag_string = Some (U ''var u = https://b.example/w/hls.m3u8?viewerToken=BBB;'')\<rparr>]
     (U ''<html> https://c.example/x/hls.m3u8?viewerToken=CCC </html>'')
   = Some (U ''https://c.example/x/hls.m3u8?viewerToken=CCC'')"
proof -
  let ?meta = "\<lparr>tag_name = U ''meta'',
       attrs = [U ''property'' \<mapsto> U ''og:url'',
                U ''content'' \<mapsto> U ''https://a.example/v/hls.m3u8?viewerToken=AAA''],
       tag_string = None\<rparr>"
  let ?script = "\<lparr>tag_name = U ''script'', attrs = Map.empty,
       tag_string = Some (U ''var u = https://b.example/w/hls.m3u8?viewerToken=BBB;'')\<rparr>"
  let ?a = "U ''https://a.example/v/hls.m3u8?viewerToken=AAA''"
  let ?h1 = "U ''<html> https://b.example/w/hls.m3u8?viewerToken=BBB </html>''"
  let ?h2 = "U ''<html> https://c.example/x/hls.m3u8?viewerToken=CCC </html>''"
  have hyp: "soup_find [?meta, ?script] (U ''meta'') (U ''og:url'') = Some ?meta \<and>
      attrs ?meta (U ''content'') = Some ?a \<and>
      py_in (U ''hls.m3u8'') ?a \<and> py_in (U ''viewerToken='') ?a"
    by (simp add: soup_find_def U_def)
  from C7_manifest_precedence [where sp = "[?meta, ?script]" and t = ?meta and u = ?a and html = ?h1]
    hyp
  have 1: "extract_m3u8_url [?meta, ?script] ?h1 = Some ?a" by blast
  have s1: "strategy1 [?script] = None"
    by (simp add: strategy1_def soup_find_def U_def)
  have s2: "first_scan ?h2 = Some (U ''https://c.example/x/hls.m3u8?viewerToken=CCC'')"
    by (simp add: first_scan_def rx_text_def m3u8_pattern_def lits_def is_space_def U_def)
  from C7_manifest_precedence [where sp = "[?script]" and html = ?h2] s1 s2
  have 2: "extract_m3u8_url [?script] ?h2 = Some (U ''https://c.example/x/hls.m3u8?viewerToken=CCC'')"
    by simp
  from 1 2 show ?thesis by simp
qed

lemma split_on_no_sep: "sep \<notin> set t \<Longrightarrow> split_on sep t = [t]"
  by (induction t) auto

lemma split_on_length: "length (split_on sep t) = Suc (length (filter (\<lambda>ch. ch = sep) t))"
  by (induction t) (auto split: list.splits)

lemma spec_range_hyphen: "spec_range nd t = Some ab \<Longrightarrow> 45 \<in> set t"
proof (rule ccontr)
  assume a: "spec_range nd t = Some ab" and "45 \<notin> set t"
  then have "split_on 45 t = [t]" by (rule_tac split_on_no_sep)
  with a show False by (simp add: spec_range_def)
qed










end
